theory Spec2Isabelle
  imports Main
begin

section \<open>Strings and the library functions the parser calls\<close>

text \<open>
  A Go string is a sequence of bytes; it is modelled as a \<open>string\<close> (a list of
  8-bit characters). The library functions below are the ones \<open>cronexpression.go\<close>
  calls (\<open>strings.Fields\<close>, \<open>strings.Split\<close>, \<open>strings.Contains\<close>,
  \<open>strings.ToLower\<close>, \<open>cases.Title\<close>, \<open>strconv.Atoi\<close>). They belong to Go's
  libraries, not to the repository, and are modelled on ASCII text: a byte
  above 127 is an ordinary character that is neither white space, a letter nor a digit.
\<close>

definition byte :: "char \<Rightarrow> nat" where
  "byte c = of_char c"

text \<open>The six ASCII white space bytes: tab, line feed, vertical tab, form feed,
  carriage return and space.\<close>

definition isSpace :: "char \<Rightarrow> bool" where
  "isSpace c = (byte c = 9 \<or> byte c = 10 \<or> byte c = 11 \<or> byte c = 12 \<or> byte c = 13 \<or> byte c = 32)"

text \<open>\<open>strings.Fields\<close>: the maximal runs of bytes that are not white space, in order.
  The first argument is the field being collected.\<close>

fun fieldsFrom :: "string \<Rightarrow> string \<Rightarrow> string list" where
  "fieldsFrom cur [] = (if cur = [] then [] else [cur])"
| "fieldsFrom cur (c # cs) =
     (if isSpace c then (if cur = [] then fieldsFrom [] cs else cur # fieldsFrom [] cs)
      else fieldsFrom (cur @ [c]) cs)"

definition Fields :: "string \<Rightarrow> string list" where
  "Fields s = fieldsFrom [] s"

text \<open>\<open>strings.Split\<close> with a separator of one byte: the pieces between the
  separators; a string without the separator is the only piece (also the empty string).\<close>

fun Split :: "string \<Rightarrow> char \<Rightarrow> string list" where
  "Split [] sep = [[]]"
| "Split (c # cs) sep =
     (if c = sep then [] # Split cs sep
      else (case Split cs sep of [] \<Rightarrow> [[c]] | p # ps \<Rightarrow> (c # p) # ps))"

definition Contains :: "string \<Rightarrow> char \<Rightarrow> bool" where
  "Contains s sep = (sep \<in> set s)"

definition isUpper :: "char \<Rightarrow> bool" where
  "isUpper c = (65 \<le> byte c \<and> byte c \<le> 90)"

definition isLower :: "char \<Rightarrow> bool" where
  "isLower c = (97 \<le> byte c \<and> byte c \<le> 122)"

definition isDigit :: "char \<Rightarrow> bool" where
  "isDigit c = (48 \<le> byte c \<and> byte c \<le> 57)"

definition lowerChar :: "char \<Rightarrow> char" where
  "lowerChar c = (if isUpper c then char_of (byte c + 32) else c)"

definition upperChar :: "char \<Rightarrow> char" where
  "upperChar c = (if isLower c then char_of (byte c - 32) else c)"

definition ToLower :: "string \<Rightarrow> string" where
  "ToLower s = map lowerChar s"

text \<open>\<open>cases.Title(language.Und).String\<close>: the first letter of a word in upper
  case, the rest in lower case. The parser only looks the result up in a table whose
  keys are single words of three letters, so the model is the title case of one word.\<close>

definition Title :: "string \<Rightarrow> string" where
  "Title s = (case s of [] \<Rightarrow> [] | c # cs \<Rightarrow> upperChar c # map lowerChar cs)"

text \<open>\<open>strconv.Atoi\<close>: an optional sign, then one or more decimal digits, and the
  value must fit Go's 64-bit \<open>int\<close>. \<open>None\<close> is the error.\<close>

fun digitsVal :: "int \<Rightarrow> string \<Rightarrow> int" where
  "digitsVal acc [] = acc"
| "digitsVal acc (c # cs) = digitsVal (acc * 10 + (int (byte c) - 48)) cs"

definition Atoi :: "string \<Rightarrow> int option" where
  "Atoi s =
     (let neg = (case s of [] \<Rightarrow> False | c # _ \<Rightarrow> c = CHR ''-'');
          ds = (case s of [] \<Rightarrow> []
                | c # cs \<Rightarrow> if c = CHR ''-'' \<or> c = CHR ''+'' then cs else s)
      in if ds = [] \<or> \<not> list_all isDigit ds then None
         else let n = digitsVal 0 ds; v = (if neg then - n else n)
              in if v < - (2 ^ 63) \<or> 2 ^ 63 - 1 < v then None else Some v)"

section \<open>The expression parser (cronexpression.go)\<close>

text \<open>Each error the parser returns is a value; the constructor is the message of
  the source's \<open>fmt.Errorf\<close>, its argument what the message prints.\<close>

datatype error =
    InvalidExpression nat
  | InvalidValue string
  | ValueOutOfRange int
  | InvalidStepField string
  | InvalidStep string
  | InvalidRange string
  | InvalidRangeStart string
  | InvalidRangeEnd string
  | IndexOutOfRange

record CronExpression =
  Seconds :: "int list"
  Minutes :: "int list"
  Hours :: "int list"
  DayOfMonth :: "int list"
  Month :: "int list"
  DayOfWeek :: "int list"

type_synonym names = "(string \<times> int) list"

definition monthNameToNumber :: names where
  "monthNameToNumber =
     [(''Jan'', 1), (''Feb'', 2), (''Mar'', 3), (''Apr'', 4), (''May'', 5), (''Jun'', 6),
      (''Jul'', 7), (''Aug'', 8), (''Sep'', 9), (''Oct'', 10), (''Nov'', 11), (''Dec'', 12)]"

definition dayNameToNumber :: names where
  "dayNameToNumber =
     [(''Sun'', 0), (''Mon'', 1), (''Tue'', 2), (''Wed'', 3), (''Thu'', 4), (''Fri'', 5),
      (''Sat'', 6)]"

text \<open>Go's \<open>%\<close> on integers truncates towards zero: the remainder has the sign of
  the dividend.\<close>

definition goRem :: "int \<Rightarrow> int \<Rightarrow> int" where
  "goRem a b = sgn a * (\<bar>a\<bar> mod \<bar>b\<bar>)"

definition parseValue :: "string \<Rightarrow> int \<Rightarrow> int \<Rightarrow> names \<Rightarrow> error + int" where
  "parseValue part minVal maxVal nameToNumber =
     (case map_of nameToNumber (Title (ToLower part)) of
        Some num \<Rightarrow> Inr num
      | None \<Rightarrow>
          (case Atoi part of
             None \<Rightarrow> Inl (InvalidValue part)
           | Some num \<Rightarrow>
               if num < minVal \<or> maxVal < num then Inl (ValueOutOfRange num)
               else Inr num))"

definition parseRange :: "string \<Rightarrow> int \<Rightarrow> int \<Rightarrow> names \<Rightarrow> error + int list" where
  "parseRange part minVal maxVal nameToNumber =
     (let rangeParts = Split part CHR ''-'' in
      if length rangeParts \<noteq> 2 then Inl (InvalidRange part)
      else
        (case parseValue (rangeParts ! 0) minVal maxVal nameToNumber of
           Inl _ \<Rightarrow> Inl (InvalidRangeStart (rangeParts ! 0))
         | Inr start \<Rightarrow>
             (case parseValue (rangeParts ! 1) minVal maxVal nameToNumber of
                Inl _ \<Rightarrow> Inl (InvalidRangeEnd (rangeParts ! 1))
              | Inr end' \<Rightarrow>
                  if end' < start then Inr ([start..maxVal] @ [minVal..end'])
                  else Inr [start..end'])))"

text \<open>The loop of \<open>parseField\<close> over the comma-separated parts; \<open>values\<close> is the
  slice built so far. The first part that fails ends the loop with its error.\<close>

fun parseParts :: "string list \<Rightarrow> int \<Rightarrow> int \<Rightarrow> names \<Rightarrow> int list \<Rightarrow> error + int list" where
  "parseParts [] minVal maxVal nameToNumber values = Inr values"
| "parseParts (part # parts) minVal maxVal nameToNumber values =
     (if Contains part CHR ''-'' then
        (case parseRange part minVal maxVal nameToNumber of
           Inl err \<Rightarrow> Inl err
         | Inr rangeValues \<Rightarrow> parseParts parts minVal maxVal nameToNumber (values @ rangeValues))
      else
        (case parseValue part minVal maxVal nameToNumber of
           Inl err \<Rightarrow> Inl err
         | Inr num \<Rightarrow> parseParts parts minVal maxVal nameToNumber (values @ [num])))"

lemma Split_nonempty: "Split s sep \<noteq> []"
  by (induction s) (auto split: list.splits)

lemma Split_first_length: "length (Split s sep) = 2 \<Longrightarrow> length (Split s sep ! 0) < length s"
proof (induction s)
  case Nil
  then show ?case by simp
next
  case (Cons c cs)
  show ?case
  proof (cases "c = sep")
    case True
    then show ?thesis by simp
  next
    case False
    obtain p ps where ps: "Split cs sep = p # ps"
      using Split_nonempty [of cs sep] by (cases "Split cs sep") auto
    with False Cons show ?thesis by simp
  qed
qed

function parseField :: "string \<Rightarrow> int \<Rightarrow> int \<Rightarrow> names \<Rightarrow> error + int list"
  and parseStepField :: "string \<Rightarrow> int \<Rightarrow> int \<Rightarrow> names \<Rightarrow> error + int list" where
  "parseField field minVal maxVal nameToNumber =
     (if field = ''*'' then Inr [minVal..maxVal]
      else if Contains field CHR ''/'' then parseStepField field minVal maxVal nameToNumber
      else parseParts (Split field CHR '','') minVal maxVal nameToNumber [])"
| "parseStepField field minVal maxVal nameToNumber =
     (if length (Split field CHR ''/'') \<noteq> 2 then Inl (InvalidStepField field)
      else
        (case parseField (Split field CHR ''/'' ! 0) minVal maxVal nameToNumber of
           Inl err \<Rightarrow> Inl err
         | Inr baseValues \<Rightarrow>
             (case Atoi (Split field CHR ''/'' ! 1) of
                None \<Rightarrow> Inl (InvalidStep (Split field CHR ''/'' ! 1))
              | Some step \<Rightarrow>
                  if step \<le> 0 then Inl (InvalidStep (Split field CHR ''/'' ! 1))
                  else Inr (filter (\<lambda>val. goRem (val - minVal) step = 0) baseValues))))"
  by pat_completeness auto
termination
  by (relation "measure (\<lambda>x. case x of
        Inl (field, _) \<Rightarrow> 2 * length field + 1
      | Inr (field, _) \<Rightarrow> 2 * length field)")
    (auto dest: Split_first_length)

declare parseField.simps [simp del] parseStepField.simps [simp del]

definition ParseCronExpression :: "string \<Rightarrow> error + CronExpression" where
  "ParseCronExpression expr =
     (let fields = Fields expr in
      if length fields \<noteq> 6 then Inl (InvalidExpression (length fields))
      else
        (case parseField (fields ! 0) 0 59 [] of Inl err \<Rightarrow> Inl err | Inr seconds \<Rightarrow>
        (case parseField (fields ! 1) 0 59 [] of Inl err \<Rightarrow> Inl err | Inr minutes \<Rightarrow>
        (case parseField (fields ! 2) 0 23 [] of Inl err \<Rightarrow> Inl err | Inr hours \<Rightarrow>
        (case parseField (fields ! 3) 1 31 [] of Inl err \<Rightarrow> Inl err | Inr dayOfMonth \<Rightarrow>
        (case parseField (fields ! 4) 1 12 monthNameToNumber of Inl err \<Rightarrow> Inl err | Inr month \<Rightarrow>
        (case parseField (fields ! 5) 0 6 dayNameToNumber of Inl err \<Rightarrow> Inl err | Inr dayOfWeek \<Rightarrow>
           Inr \<lparr>Seconds = seconds, Minutes = minutes, Hours = hours,
                DayOfMonth = dayOfMonth, Month = month, DayOfWeek = dayOfWeek\<rparr>)))))))"

section \<open>Instants (Go's time.Time)\<close>

text \<open>
  A \<open>time.Time\<close> is an instant with a location. The instant is the number of
  nanoseconds since the Unix epoch; the location gives, for a Unix second, the offset
  of local time east of UTC in seconds (\<open>\<lambda>_. 0\<close> is UTC). A \<open>time.Duration\<close>
  is a number of nanoseconds. Both are unbounded integers here, Go's are 64-bit;
  \<open>Time_Sub\<close> saturates as Go's \<open>Sub\<close> does. The calendar is the proleptic
  Gregorian one of Go's \<open>time\<close> package.
\<close>

type_synonym Duration = int

record Time =
  nanos :: int
  zone :: "int \<Rightarrow> int"

definition Second :: Duration where
  "Second = 1000000000"

definition Hour :: Duration where
  "Hour = 3600 * Second"

definition maxDuration :: Duration where
  "maxDuration = 2 ^ 63 - 1"

definition minDuration :: Duration where
  "minDuration = - (2 ^ 63)"

definition Time_Add :: "Time \<Rightarrow> Duration \<Rightarrow> Time" where
  "Time_Add t d = t\<lparr>nanos := nanos t + d\<rparr>"

definition Time_Sub :: "Time \<Rightarrow> Time \<Rightarrow> Duration" where
  "Time_Sub t u =
     (let d = nanos t - nanos u in
      if maxDuration < d then maxDuration else if d < minDuration then minDuration else d)"

text \<open>The zero value \<open>time.Time{}\<close> is January 1 of year 1, 00:00:00 UTC, which is
  62135596800 seconds before the Unix epoch; \<open>IsZero\<close> compares the instant only.\<close>

definition zeroTime :: Time where
  "zeroTime = \<lparr>nanos = - 62135596800 * 1000000000, zone = (\<lambda>_. 0)\<rparr>"

definition IsZero :: "Time \<Rightarrow> bool" where
  "IsZero t = (nanos t = - 62135596800 * 1000000000)"

definition Time_Nanosecond :: "Time \<Rightarrow> int" where
  "Time_Nanosecond t = nanos t mod 1000000000"

text \<open>The seconds of local time since 1970-01-01 00:00:00 and the clock and calendar
  fields read from them.\<close>

definition wallSeconds :: "Time \<Rightarrow> int" where
  "wallSeconds t = nanos t div 1000000000 + zone t (nanos t div 1000000000)"

definition Time_Second :: "Time \<Rightarrow> int" where
  "Time_Second t = wallSeconds t mod 60"

definition Time_Minute :: "Time \<Rightarrow> int" where
  "Time_Minute t = (wallSeconds t div 60) mod 60"

definition Time_Hour :: "Time \<Rightarrow> int" where
  "Time_Hour t = (wallSeconds t div 3600) mod 24"

definition wallDays :: "Time \<Rightarrow> int" where
  "wallDays t = wallSeconds t div 86400"

text \<open>1970-01-01 was a Thursday; Sunday is 0.\<close>

definition Time_Weekday :: "Time \<Rightarrow> int" where
  "Time_Weekday t = (wallDays t + 4) mod 7"

text \<open>The date of a day number (days since 1970-01-01): the day is counted within
  its 400-year cycle of 146097 days, the cycles starting on March 1 of year 0, and
  the month within a year that starts in March.\<close>

definition dayOfCycle :: "int \<Rightarrow> int" where
  "dayOfCycle z = (z + 719468) mod 146097"

definition yearOfCycle :: "int \<Rightarrow> int" where
  "yearOfCycle z =
     (let doe = dayOfCycle z in
      (doe - doe div 1460 + doe div 36524 - doe div 146096) div 365)"

definition dayOfMarchYear :: "int \<Rightarrow> int" where
  "dayOfMarchYear z =
     (let yoe = yearOfCycle z in dayOfCycle z - (365 * yoe + yoe div 4 - yoe div 100))"

definition monthFromMarch :: "int \<Rightarrow> int" where
  "monthFromMarch z = (5 * dayOfMarchYear z + 2) div 153"

definition Time_Month :: "Time \<Rightarrow> int" where
  "Time_Month t =
     (let mp = monthFromMarch (wallDays t) in if mp < 10 then mp + 3 else mp - 9)"

definition Time_Day :: "Time \<Rightarrow> int" where
  "Time_Day t =
     (let z = wallDays t in dayOfMarchYear z - (153 * monthFromMarch z + 2) div 5 + 1)"

definition Time_Year :: "Time \<Rightarrow> int" where
  "Time_Year t =
     (let z = wallDays t; y = yearOfCycle z + ((z + 719468) div 146097) * 400
      in if Time_Month t \<le> 2 then y + 1 else y)"

section \<open>The scheduler\<close>

text \<open>The task of a job is a Go function value; the model keeps it as a value of
  any type. The scheduler's mutex and stop channel serialise goroutines and carry no
  data; each operation below is one critical section.\<close>

record 'task Job =
  Schedule :: CronExpression
  Task :: 'task

record 'task CronScheduler =
  Jobs :: "'task Job list"
  running :: bool

definition NewCronScheduler :: "'task CronScheduler" where
  "NewCronScheduler = \<lparr>Jobs = [], running = False\<rparr>"

text \<open>\<open>AddJob\<close> and \<open>RemoveJob\<close> return the scheduler after the call and the
  error (\<open>None\<close> is Go's \<open>nil\<close>).\<close>

definition AddJob :: "'task CronScheduler \<Rightarrow> string \<Rightarrow> 'task \<Rightarrow> 'task CronScheduler \<times> error option" where
  "AddJob c expr task =
     (case ParseCronExpression expr of
        Inl err \<Rightarrow> (c, Some err)
      | Inr schedule \<Rightarrow>
          (c\<lparr>Jobs := Jobs c @ [\<lparr>Schedule = schedule, Task = task\<rparr>]\<rparr>, None))"

definition RemoveJob :: "'task CronScheduler \<Rightarrow> int \<Rightarrow> 'task CronScheduler \<times> error option" where
  "RemoveJob c index =
     (if index < 0 \<or> int (length (Jobs c)) \<le> index then (c, Some IndexOutOfRange)
      else (c\<lparr>Jobs := take (nat index) (Jobs c) @ drop (nat (index + 1)) (Jobs c)\<rparr>, None))"

fun contains :: "int list \<Rightarrow> int \<Rightarrow> bool" where
  "contains [] value = False"
| "contains (v # list) value = (if v = value then True else contains list value)"

definition isTimeMatching :: "CronExpression \<Rightarrow> Time \<Rightarrow> bool" where
  "isTimeMatching expr t =
     (if \<not> contains (Seconds expr) (Time_Second t) then False
      else if \<not> contains (Minutes expr) (Time_Minute t) then False
      else if \<not> contains (Hours expr) (Time_Hour t) then False
      else if \<not> contains (DayOfMonth expr) (Time_Day t) then False
      else if \<not> contains (Month expr) (Time_Month t) then False
      else
        (let weekday = (if Time_Weekday t = 0 then 7 else Time_Weekday t) in
         if \<not> contains (DayOfWeek expr) (goRem weekday 7) then False else True))"

text \<open>The loop of \<open>nextRunTime\<close>: \<open>for range maxIterations\<close> runs its body a fixed
  number of times; the first argument is the number of iterations left.\<close>

fun nextRunLoop :: "nat \<Rightarrow> CronExpression \<Rightarrow> Time \<Rightarrow> Time" where
  "nextRunLoop 0 expr nextTime = zeroTime"
| "nextRunLoop (Suc n) expr nextTime =
     (if isTimeMatching expr nextTime then nextTime
      else nextRunLoop n expr (Time_Add nextTime Second))"

definition maxIterations :: nat where
  "maxIterations = 1000000"

definition nextRunTime :: "CronExpression \<Rightarrow> Time \<Rightarrow> Time" where
  "nextRunTime expr fromTime =
     nextRunLoop maxIterations expr (Time_Add fromTime (Second - Time_Nanosecond fromTime))"

text \<open>The loop of \<open>timeUntilNextJob\<close> over the jobs; the last argument is
  \<open>minDuration\<close> so far.\<close>

fun untilLoop :: "'task Job list \<Rightarrow> Time \<Rightarrow> Duration \<Rightarrow> Duration" where
  "untilLoop [] now shortest = shortest"
| "untilLoop (job # jobs) now shortest =
     (let nextRun = nextRunTime (Schedule job) now in
      if IsZero nextRun then untilLoop jobs now shortest
      else
        (let duration = Time_Sub nextRun now in
         if duration < shortest then untilLoop jobs now duration
         else untilLoop jobs now shortest))"

definition timeUntilNextJob :: "'task CronScheduler \<Rightarrow> Time \<Rightarrow> Duration" where
  "timeUntilNextJob c now = untilLoop (Jobs c) now (Hour * 24 * 365)"

section \<open>Notions used to state the properties\<close>

text \<open>\<open>UnixUTC sec\<close> is the instant \<open>time.Unix(sec, 0)\<close> read in UTC.\<close>

definition UnixUTC :: "int \<Rightarrow> Time" where
  "UnixUTC sec = \<lparr>nanos = sec * 1000000000, zone = (\<lambda>_. 0)\<rparr>"

text \<open>The candidates of \<open>nextRunTime\<close>: candidate 0 is the start of the scan, each
  further one a second later.\<close>

definition candidate :: "Time \<Rightarrow> nat \<Rightarrow> Time" where
  "candidate fromTime k =
     Time_Add (Time_Add fromTime (Second - Time_Nanosecond fromTime)) (int k * Second)"

text \<open>The durations \<open>timeUntilNextJob\<close> compares: one for each job whose next run
  is not the zero instant, in the order of the jobs.\<close>

definition durations :: "'task Job list \<Rightarrow> Time \<Rightarrow> Duration list" where
  "durations jobs now =
     map (\<lambda>job. Time_Sub (nextRunTime (Schedule job) now) now)
       (filter (\<lambda>job. \<not> IsZero (nextRunTime (Schedule job) now)) jobs)"

text \<open>All values of a field lie in the field's legal range; all numbers of a name table do.\<close>

definition within :: "int \<Rightarrow> int \<Rightarrow> int list \<Rightarrow> bool" where
  "within lo hi vs = (\<forall>v\<in>set vs. lo \<le> v \<and> v \<le> hi)"

definition namesWithin :: "int \<Rightarrow> int \<Rightarrow> names \<Rightarrow> bool" where
  "namesWithin lo hi nameToNumber = within lo hi (map snd nameToNumber)"

text \<open>An expression that allows one second of every minute and every value of the
  other fields, as \<open>ParseCronExpression\<close> returns it for \<open>s * * * * *\<close>.\<close>

definition atSecond :: "int \<Rightarrow> CronExpression" where
  "atSecond s = \<lparr>Seconds = [s], Minutes = [0..59], Hours = [0..23], DayOfMonth = [1..31],
      Month = [1..12], DayOfWeek = [0..6]\<rparr>"

section \<open>Auxiliary facts\<close>

subsection \<open>Splitting and remainders\<close>

lemma Split_no_sep: "sep \<notin> set s \<Longrightarrow> Split s sep = [s]"
  by (induction s) auto

lemma Split_append_sep: "sep \<notin> set a \<Longrightarrow> Split (a @ sep # b) sep = a # Split b sep"
  by (induction a) auto

lemma Split_length: "length (Split s sep) = Suc (length (filter (\<lambda>c. c = sep) s))"
proof (induction s)
  case Nil
  then show ?case by simp
next
  case (Cons c cs)
  obtain p ps where "Split cs sep = p # ps"
    using Split_nonempty [of cs sep] by (cases "Split cs sep") auto
  with Cons show ?case by auto
qed

lemma Split_two: "sep \<notin> set a \<Longrightarrow> sep \<notin> set b \<Longrightarrow> Split (a @ sep # b) sep = [a, b]"
  by (simp add: Split_append_sep Split_no_sep)

lemma Split_two_conv:
  "Split s sep = [a, b] \<Longrightarrow> s = a @ sep # b \<and> sep \<notin> set a \<and> sep \<notin> set b"
proof (induction s arbitrary: a)
  case Nil
  then show ?case by simp
next
  case (Cons c cs)
  show ?case
  proof (cases "c = sep")
    case True
    with Cons.prems have a: "a = []" and b: "Split cs sep = [b]" by auto
    have "length (filter (\<lambda>c. c = sep) cs) = 0"
      using Split_length [of cs sep] b by simp
    then have "sep \<notin> set cs" by (auto simp add: filter_empty_conv)
    with b Split_no_sep [of sep cs] True a show ?thesis by simp
  next
    case False
    obtain p ps where ps: "Split cs sep = p # ps"
      using Split_nonempty [of cs sep] by (cases "Split cs sep") auto
    with False Cons.prems have "a = c # p" "ps = [b]" by auto
    with ps Cons.IH [of p] False show ?thesis by auto
  qed
qed

lemma goRem_zero_iff: "0 < b \<Longrightarrow> goRem a b = 0 \<longleftrightarrow> a mod b = 0"
proof -
  assume b: "0 < b"
  have "goRem a b = 0 \<longleftrightarrow> a = 0 \<or> \<bar>a\<bar> mod b = 0"
    using b by (auto simp add: goRem_def sgn_if)
  also have "\<dots> \<longleftrightarrow> b dvd a"
    by (auto simp add: mod_eq_0_iff_dvd)
  finally show ?thesis by (simp add: mod_eq_0_iff_dvd)
qed

subsection \<open>Tokens with a dash, fields with a slash\<close>

lemma parseValue_empty:
  "map_of nameToNumber [] = None \<Longrightarrow> parseValue [] lo hi nameToNumber = Inl (InvalidValue [])"
  by (simp add: parseValue_def Title_def ToLower_def Atoi_def)

lemma parseField_single_part:
  assumes "CHR ''-'' \<in> set field" "CHR ''/'' \<notin> set field" "CHR '','' \<notin> set field"
  shows "parseField field lo hi nameToNumber = parseRange field lo hi nameToNumber"
proof -
  from assms(1) have "field \<noteq> ''*''" by auto
  with assms show ?thesis
    by (simp add: parseField.simps Contains_def Split_no_sep split: sum.splits)
qed

lemma parseRange_leading_dash:
  assumes "CHR ''-'' \<notin> set ds" "map_of nameToNumber [] = None"
  shows "parseRange (CHR ''-'' # ds) lo hi nameToNumber = Inl (InvalidRangeStart [])"
proof -
  have "Split (CHR ''-'' # ds) CHR ''-'' = [[], ds]"
    using assms(1) by (simp add: Split_no_sep)
  then show ?thesis
    using parseValue_empty [OF assms(2)] by (simp add: parseRange_def)
qed

lemma parseRange_many_dashes:
  assumes "2 \<le> length (filter (\<lambda>c. c = CHR ''-'') part)"
  shows "parseRange part lo hi nameToNumber = Inl (InvalidRange part)"
proof -
  have "length (Split part CHR ''-'') \<noteq> 2"
    using assms by (simp add: Split_length)
  then show ?thesis by (simp add: parseRange_def)
qed

lemma parseField_step_unfold:
  assumes "CHR ''/'' \<notin> set a" "CHR ''/'' \<notin> set st"
  shows "parseField (a @ CHR ''/'' # st) lo hi nameToNumber =
     (case parseField a lo hi nameToNumber of
        Inl err \<Rightarrow> Inl err
      | Inr baseValues \<Rightarrow>
          (case Atoi st of
             None \<Rightarrow> Inl (InvalidStep st)
           | Some step \<Rightarrow>
               if step \<le> 0 then Inl (InvalidStep st)
               else Inr (filter (\<lambda>v. (v - lo) mod step = 0) baseValues)))"
proof -
  let ?f = "a @ CHR ''/'' # st"
  have star: "?f \<noteq> ''*''"
    by (cases a) auto
  have sp: "Split ?f CHR ''/'' = [a, st]"
    using assms by (rule Split_two)
  have "parseField ?f lo hi nameToNumber = parseStepField ?f lo hi nameToNumber"
    using star by (simp add: parseField.simps Contains_def)
  also have "\<dots> =
     (case parseField a lo hi nameToNumber of
        Inl err \<Rightarrow> Inl err
      | Inr baseValues \<Rightarrow>
          (case Atoi st of
             None \<Rightarrow> Inl (InvalidStep st)
           | Some step \<Rightarrow>
               if step \<le> 0 then Inl (InvalidStep st)
               else Inr (filter (\<lambda>val. goRem (val - lo) step = 0) baseValues)))"
    by (subst parseStepField.simps, unfold sp) (simp split: sum.splits option.splits)
  also have "\<dots> =
     (case parseField a lo hi nameToNumber of
        Inl err \<Rightarrow> Inl err
      | Inr baseValues \<Rightarrow>
          (case Atoi st of
             None \<Rightarrow> Inl (InvalidStep st)
           | Some step \<Rightarrow>
               if step \<le> 0 then Inl (InvalidStep st)
               else Inr (filter (\<lambda>v. (v - lo) mod step = 0) baseValues)))"
    by (auto split: sum.splits option.splits simp add: goRem_zero_iff)
  finally show ?thesis .
qed

subsection \<open>Every parsed field is within its bounds\<close>

lemma within_append: "within lo hi (xs @ ys) \<longleftrightarrow> within lo hi xs \<and> within lo hi ys"
  by (auto simp add: within_def)

lemma within_filter: "within lo hi xs \<Longrightarrow> within lo hi (filter P xs)"
  by (simp add: within_def)

lemma within_upto: "lo \<le> a \<Longrightarrow> b \<le> hi \<Longrightarrow> within lo hi [a..b]"
  by (simp add: within_def)

lemma parseValue_within:
  assumes "parseValue part lo hi nameToNumber = Inr v" and "namesWithin lo hi nameToNumber"
  shows "lo \<le> v \<and> v \<le> hi"
proof (cases "map_of nameToNumber (Title (ToLower part))")
  case None
  with assms(1) show ?thesis
    by (auto simp add: parseValue_def split: option.splits if_splits)
next
  case (Some n)
  then have "n \<in> set (map snd nameToNumber)"
    by (force dest: map_of_SomeD)
  moreover from Some assms(1) have "v = n" by (simp add: parseValue_def)
  ultimately show ?thesis using assms(2) by (auto simp add: namesWithin_def within_def)
qed

lemma parseRange_within:
  assumes "parseRange part lo hi nameToNumber = Inr vs" and "namesWithin lo hi nameToNumber"
  shows "within lo hi vs"
proof -
  from assms(1) obtain a b where
    a: "parseValue (Split part CHR ''-'' ! 0) lo hi nameToNumber = Inr a" and
    b: "parseValue (Split part CHR ''-'' ! 1) lo hi nameToNumber = Inr b" and
    vs: "vs = (if b < a then [a..hi] @ [lo..b] else [a..b])"
    by (auto simp add: parseRange_def Let_def split: if_splits sum.splits)
  from parseValue_within [OF a assms(2)] parseValue_within [OF b assms(2)] vs
  show ?thesis by (simp add: within_append within_upto)
qed

lemma parseParts_within:
  "parseParts parts lo hi nameToNumber acc = Inr vs \<Longrightarrow> namesWithin lo hi nameToNumber \<Longrightarrow>
     within lo hi acc \<Longrightarrow> within lo hi vs"
proof (induction parts arbitrary: acc)
  case Nil
  then show ?case by simp
next
  case (Cons part parts)
  show ?case
  proof (cases "Contains part CHR ''-''")
    case True
    with Cons.prems(1) obtain r where r: "parseRange part lo hi nameToNumber = Inr r"
      and rest: "parseParts parts lo hi nameToNumber (acc @ r) = Inr vs"
      by (auto split: sum.splits)
    from parseRange_within [OF r Cons.prems(2)] Cons.prems(3)
    have "within lo hi (acc @ r)" by (simp add: within_append)
    from Cons.IH [OF rest Cons.prems(2) this] show ?thesis .
  next
    case False
    with Cons.prems(1) obtain n where n: "parseValue part lo hi nameToNumber = Inr n"
      and rest: "parseParts parts lo hi nameToNumber (acc @ [n]) = Inr vs"
      by (auto split: sum.splits)
    from parseValue_within [OF n Cons.prems(2)] Cons.prems(3)
    have "within lo hi (acc @ [n])" by (simp add: within_append) (simp add: within_def)
    from Cons.IH [OF rest Cons.prems(2) this] show ?thesis .
  qed
qed

lemma parseField_within_both:
  "(\<forall>vs. parseField field lo hi nameToNumber = Inr vs \<longrightarrow> namesWithin lo hi nameToNumber \<longrightarrow>
       within lo hi vs)"
  "(\<forall>vs. parseStepField field lo hi nameToNumber = Inr vs \<longrightarrow> namesWithin lo hi nameToNumber \<longrightarrow>
       within lo hi vs)"
proof (induction field lo hi nameToNumber and field lo hi nameToNumber
    rule: parseField_parseStepField.induct)
  case (1 field minVal maxVal nameToNumber)
  show ?case
  proof (intro allI impI)
    fix vs
    assume r: "parseField field minVal maxVal nameToNumber = Inr vs"
      and n: "namesWithin minVal maxVal nameToNumber"
    show "within minVal maxVal vs"
    proof (cases "field = ''*''")
      case True
      with r have "vs = [minVal..maxVal]" by (simp add: parseField.simps)
      then show ?thesis by (simp add: within_def)
    next
      case star: False
      show ?thesis
      proof (cases "Contains field CHR ''/''")
        case True
        with star r have "parseStepField field minVal maxVal nameToNumber = Inr vs"
          by (simp add: parseField.simps)
        with "1.IH" [OF star True] n show ?thesis by blast
      next
        case False
        with star r have "parseParts (Split field CHR '','') minVal maxVal nameToNumber [] = Inr vs"
          by (simp add: parseField.simps)
        from parseParts_within [OF this n] show ?thesis by (simp add: within_def)
      qed
    qed
  qed
next
  case (2 field minVal maxVal nameToNumber)
  show ?case
  proof (intro allI impI)
    fix vs
    assume r: "parseStepField field minVal maxVal nameToNumber = Inr vs"
      and n: "namesWithin minVal maxVal nameToNumber"
    from r have len: "\<not> length (Split field CHR ''/'') \<noteq> 2"
      by (subst (asm) parseStepField.simps) (auto split: if_splits)
    with r obtain base where
      base: "parseField (Split field CHR ''/'' ! 0) minVal maxVal nameToNumber = Inr base"
      and vs: "\<exists>P. vs = filter P base"
      by (subst (asm) parseStepField.simps) (auto split: sum.splits option.splits if_splits)
    from "2.IH" [OF len] base n have "within minVal maxVal base" by blast
    with vs show "within minVal maxVal vs" by (auto simp add: within_filter)
  qed
qed

lemma parseField_within:
  "parseField field lo hi nameToNumber = Inr vs \<Longrightarrow> namesWithin lo hi nameToNumber \<Longrightarrow>
     within lo hi vs"
  using parseField_within_both(1) by blast

lemma names_ok:
  "namesWithin 0 59 []" "namesWithin 0 23 []" "namesWithin 1 31 []"
  "namesWithin 1 12 monthNameToNumber" "namesWithin 0 6 dayNameToNumber"
  by (simp_all add: namesWithin_def within_def monthNameToNumber_def dayNameToNumber_def)


subsection \<open>The scan for the next run and the shortest wait\<close>

lemma Time_Add_zero: "Time_Add t 0 = t"
  by (simp add: Time_Add_def)

lemma Time_Add_Add: "Time_Add (Time_Add t a) b = Time_Add t (a + b)"
  by (simp add: Time_Add_def)

lemma nextRunLoop_first:
  "k < n \<Longrightarrow> isTimeMatching e (Time_Add t (int k * Second)) \<Longrightarrow>
   (\<And>j. j < k \<Longrightarrow> \<not> isTimeMatching e (Time_Add t (int j * Second))) \<Longrightarrow>
   nextRunLoop n e t = Time_Add t (int k * Second)"
proof (induction n arbitrary: t k)
  case 0
  then show ?case by simp
next
  case (Suc n)
  show ?case
  proof (cases k)
    case 0
    with Suc.prems(2) show ?thesis by (simp add: Time_Add_zero)
  next
    case (Suc k')
    have step: "Time_Add (Time_Add t Second) (int j * Second) = Time_Add t (int (Suc j) * Second)" for j
      by (simp add: Time_Add_Add algebra_simps)
    from Suc.prems(3) [of 0] Suc have no: "\<not> isTimeMatching e t"
      by (simp add: Time_Add_zero)
    have "nextRunLoop n e (Time_Add t Second) = Time_Add (Time_Add t Second) (int k' * Second)"
    proof (rule Suc.IH)
      show "k' < n" using Suc.prems(1) Suc by simp
      show "isTimeMatching e (Time_Add (Time_Add t Second) (int k' * Second))"
        using Suc.prems(2) Suc by (simp only: step)
      show "\<not> isTimeMatching e (Time_Add (Time_Add t Second) (int j * Second))" if "j < k'" for j
        using Suc.prems(3) [of "Suc j"] that Suc by (simp only: step) simp
    qed
    with no Suc show ?thesis by (simp only: step nextRunLoop.simps if_False)
  qed
qed

lemma nextRunLoop_none:
  "(\<And>j. j < n \<Longrightarrow> \<not> isTimeMatching e (Time_Add t (int j * Second))) \<Longrightarrow>
   nextRunLoop n e t = zeroTime"
proof (induction n arbitrary: t)
  case 0
  then show ?case by simp
next
  case (Suc n)
  have step: "Time_Add (Time_Add t Second) (int j * Second) = Time_Add t (int (Suc j) * Second)" for j
    by (simp add: Time_Add_Add algebra_simps)
  from Suc.prems [of 0] have no: "\<not> isTimeMatching e t"
    by (simp add: Time_Add_zero)
  have "nextRunLoop n e (Time_Add t Second) = zeroTime"
  proof (rule Suc.IH)
    show "\<not> isTimeMatching e (Time_Add (Time_Add t Second) (int j * Second))" if "j < n" for j
      using Suc.prems [of "Suc j"] that by (simp only: step) simp
  qed
  with no show ?case by simp
qed

lemma nextRunLoop_cases:
  "nextRunLoop n e t = zeroTime \<or> (\<exists>k<n. nextRunLoop n e t = Time_Add t (int k * Second))"
proof (cases "\<exists>k<n. isTimeMatching e (Time_Add t (int k * Second))")
  case True
  define k where "k = (LEAST k. k < n \<and> isTimeMatching e (Time_Add t (int k * Second)))"
  from True have k: "k < n \<and> isTimeMatching e (Time_Add t (int k * Second))"
    unfolding k_def by (rule LeastI_ex)
  have "\<not> isTimeMatching e (Time_Add t (int j * Second))" if "j < k" for j
    using not_less_Least [of j "\<lambda>k. k < n \<and> isTimeMatching e (Time_Add t (int k * Second))"] that k
    unfolding k_def by auto
  with k have "nextRunLoop n e t = Time_Add t (int k * Second)"
    by (intro nextRunLoop_first) auto
  with k show ?thesis by blast
next
  case False
  then have "nextRunLoop n e t = zeroTime"
    by (intro nextRunLoop_none) auto
  then show ?thesis by simp
qed

lemma candidate_Suc: "candidate fromTime (Suc k) = Time_Add (candidate fromTime k) Second"
  by (simp add: candidate_def Time_Add_Add algebra_simps)

lemma candidate_start:
  "Time_Nanosecond (candidate fromTime 0) = 0 \<and> nanos fromTime < nanos (candidate fromTime 0) \<and>
   nanos (candidate fromTime 0) \<le> nanos fromTime + Second"
proof -
  have n: "nanos (candidate fromTime 0) = nanos fromTime + (1000000000 - nanos fromTime mod 1000000000)"
    by (simp add: candidate_def Time_Add_def Time_Nanosecond_def Second_def)
  have "0 \<le> nanos fromTime mod 1000000000" "nanos fromTime mod 1000000000 < 1000000000"
    by simp_all
  moreover have "(nanos fromTime + (1000000000 - nanos fromTime mod 1000000000)) mod 1000000000 = 0"
  proof -
    have "nanos fromTime + (1000000000 - nanos fromTime mod 1000000000) =
        1000000000 * (nanos fromTime div 1000000000 + 1)"
      using mult_div_mod_eq [of 1000000000 "nanos fromTime"] by (simp add: algebra_simps)
    then show ?thesis by (simp only: mod_mult_self1_is_0)
  qed
  ultimately show ?thesis
    unfolding n by (simp add: Time_Nanosecond_def Second_def n)
qed

lemma nextRunTime_duration:
  assumes "\<not> IsZero (nextRunTime e now)"
  shows "0 < Time_Sub (nextRunTime e now) now \<and> Time_Sub (nextRunTime e now) now \<le> 1000000 * Second"
proof -
  from assms have "nextRunTime e now \<noteq> zeroTime"
    by (auto simp add: IsZero_def zeroTime_def)
  with nextRunLoop_cases [of maxIterations e "Time_Add now (Second - Time_Nanosecond now)"]
  obtain k where k: "k < maxIterations" and r: "nextRunTime e now = candidate now k"
    by (auto simp add: nextRunTime_def candidate_def)
  have n: "nanos (candidate now k) - nanos now = (1 + int k) * 1000000000 - nanos now mod 1000000000"
    by (simp add: candidate_def Time_Add_def Time_Nanosecond_def Second_def algebra_simps)
  have m: "0 \<le> nanos now mod 1000000000" "nanos now mod 1000000000 < 1000000000"
    by simp_all
  from k have k': "int k < 1000000" by (simp add: maxIterations_def)
  have k0: "0 \<le> int k" by simp
  have lo: "0 < nanos (candidate now k) - nanos now"
    using m k0 unfolding n by (simp add: algebra_simps)
  have hi: "nanos (candidate now k) - nanos now \<le> 1000000 * 1000000000"
    using m k' unfolding n by (simp add: algebra_simps)
  from lo hi show ?thesis
    unfolding r by (simp add: Time_Sub_def Let_def maxDuration_def minDuration_def Second_def)
qed

lemma untilLoop_Min: "untilLoop jobs now m = Min (insert m (set (durations jobs now)))"
proof (induction jobs arbitrary: m)
  case Nil
  then show ?case by (simp add: durations_def)
next
  case (Cons job jobs)
  show ?case
  proof (cases "IsZero (nextRunTime (Schedule job) now)")
    case True
    then show ?thesis by (simp add: Cons.IH durations_def)
  next
    case False
    define d where "d = Time_Sub (nextRunTime (Schedule job) now) now"
    from False have ds: "durations (job # jobs) now = d # durations jobs now"
      by (simp add: durations_def d_def)
    from False have "untilLoop (job # jobs) now m = untilLoop jobs now (min d m)"
      by (simp add: Let_def d_def min_def)
    also have "\<dots> = Min (insert (min d m) (set (durations jobs now)))"
      by (rule Cons.IH)
    also have "\<dots> = Min (insert m (insert d (set (durations jobs now))))"
      by (cases "durations jobs now = []")
        (simp_all add: min.commute min.assoc min.left_commute)
    finally show ?thesis by (simp add: ds)
  qed
qed

lemma durations_bound: "d \<in> set (durations jobs now) \<Longrightarrow> d \<le> 1000000 * Second"
  using nextRunTime_duration by (auto simp add: durations_def)

lemma timeUntilNextJob_eq:
  "timeUntilNextJob c now =
     (if durations (Jobs c) now = [] then Hour * 24 * 365 else Min (set (durations (Jobs c) now)))"
proof (cases "durations (Jobs c) now = []")
  case True
  then show ?thesis by (simp add: timeUntilNextJob_def untilLoop_Min)
next
  case False
  have "Min (set (durations (Jobs c) now)) \<in> set (durations (Jobs c) now)"
    using False by (intro Min_in) auto
  then have "Min (set (durations (Jobs c) now)) \<le> 1000000 * Second"
    by (rule durations_bound)
  then have "Min (set (durations (Jobs c) now)) \<le> Hour * 24 * 365"
    by (simp add: Hour_def Second_def)
  then have "min (Hour * 24 * 365) (Min (set (durations (Jobs c) now))) =
      Min (set (durations (Jobs c) now))"
    by (rule min_absorb2)
  with False show ?thesis
    by (simp add: timeUntilNextJob_def untilLoop_Min del: Min_le_iff Min.bounded_iff)
qed


subsection \<open>Matching an instant\<close>

lemma instant_2023_01_01:
  "Time_Year (UnixUTC 1672582530) = 2023 \<and> Time_Month (UnixUTC 1672582530) = 1 \<and>
   Time_Day (UnixUTC 1672582530) = 1 \<and> Time_Hour (UnixUTC 1672582530) = 14 \<and>
   Time_Minute (UnixUTC 1672582530) = 15 \<and> Time_Second (UnixUTC 1672582530) = 30 \<and>
   Time_Weekday (UnixUTC 1672582530) = 0 \<and> Time_Nanosecond (UnixUTC 1672582530) = 0"
  by code_simp

lemma contains_iff: "contains xs v \<longleftrightarrow> v \<in> set xs"
  by (induction xs) auto

lemma Time_Weekday_range: "0 \<le> Time_Weekday t \<and> Time_Weekday t < 7"
  by (simp add: Time_Weekday_def)

lemma goRem_weekday: "0 \<le> w \<Longrightarrow> w < 7 \<Longrightarrow> goRem (if w = 0 then 7 else w) 7 = w"
  by (simp add: goRem_def)

lemma isTimeMatching_iff:
  "isTimeMatching e t \<longleftrightarrow>
     Time_Second t \<in> set (Seconds e) \<and> Time_Minute t \<in> set (Minutes e) \<and>
     Time_Hour t \<in> set (Hours e) \<and> Time_Day t \<in> set (DayOfMonth e) \<and>
     Time_Month t \<in> set (Month e) \<and> Time_Weekday t \<in> set (DayOfWeek e)"
proof -
  have "goRem (if Time_Weekday t = 0 then 7 else Time_Weekday t) 7 = Time_Weekday t"
    using Time_Weekday_range [of t] by (intro goRem_weekday) auto
  then show ?thesis
    by (auto simp add: isTimeMatching_def contains_iff Let_def)
qed

text \<open>Three runs of the scan from a quarter of a second past 2023-01-01T14:15:30Z.\<close>

lemma nextRunTime_examples:
  "nextRunTime (atSecond 33) \<lparr>nanos = 1672582530250000000, zone = (\<lambda>_. 0)\<rparr> =
     UnixUTC 1672582533"
  "nextRunTime (atSecond 31) \<lparr>nanos = 1672582530250000000, zone = (\<lambda>_. 0)\<rparr> =
     UnixUTC 1672582531"
  "nextRunTime (atSecond 33 \<lparr>Seconds := []\<rparr>) \<lparr>nanos = 1672582530250000000, zone = (\<lambda>_. 0)\<rparr> =
     zeroTime"
proof -
  let ?t = "\<lparr>nanos = 1672582530250000000, zone = (\<lambda>_. 0)\<rparr>"
  have start: "Time_Add ?t (Second - Time_Nanosecond ?t) = UnixUTC 1672582531"
    by (simp add: Time_Add_def Time_Nanosecond_def Second_def UnixUTC_def)
  have add: "Time_Add (UnixUTC 1672582531) (int j * Second) = UnixUTC (1672582531 + int j)" for j
    by (simp add: Time_Add_def Second_def UnixUTC_def algebra_simps)
  have m: "\<not> isTimeMatching (atSecond 33) (UnixUTC 1672582531)"
    "\<not> isTimeMatching (atSecond 33) (UnixUTC 1672582532)"
    "isTimeMatching (atSecond 33) (UnixUTC 1672582533)"
    "isTimeMatching (atSecond 31) (UnixUTC 1672582531)"
    unfolding atSecond_def by code_simp+
  have "nextRunLoop maxIterations (atSecond 33) (UnixUTC 1672582531) =
      Time_Add (UnixUTC 1672582531) (int 2 * Second)"
  proof (rule nextRunLoop_first)
    show "2 < maxIterations" by (simp add: maxIterations_def)
    show "isTimeMatching (atSecond 33) (Time_Add (UnixUTC 1672582531) (int 2 * Second))"
      unfolding add using m by simp
    show "\<not> isTimeMatching (atSecond 33) (Time_Add (UnixUTC 1672582531) (int j * Second))"
      if "j < 2" for j
    proof -
      from that have "j = 0 \<or> j = 1" by auto
      then show ?thesis unfolding add using m by auto
    qed
  qed
  then show "nextRunTime (atSecond 33) ?t = UnixUTC 1672582533"
    unfolding nextRunTime_def start add by simp
  have "nextRunLoop maxIterations (atSecond 31) (UnixUTC 1672582531) =
      Time_Add (UnixUTC 1672582531) (int 0 * Second)"
  proof (rule nextRunLoop_first)
    show "0 < maxIterations" by (simp add: maxIterations_def)
    show "isTimeMatching (atSecond 31) (Time_Add (UnixUTC 1672582531) (int 0 * Second))"
      unfolding add using m by simp
  qed simp
  then show "nextRunTime (atSecond 31) ?t = UnixUTC 1672582531"
    unfolding nextRunTime_def start add by simp
  show "nextRunTime (atSecond 33 \<lparr>Seconds := []\<rparr>) ?t = zeroTime"
    unfolding nextRunTime_def by (rule nextRunLoop_none) (simp add: isTimeMatching_def)
qed

section \<open>The claims\<close>

text \<open>
  Claim C1. \<open>isTimeMatching\<close> holds of an expression and an instant exactly when
  each of the instant's six components (second, minute, hour, day of the month, month,
  and weekday with Sunday as 0) is a member of the corresponding field of the
  expression. The expression parsed from \<open>30 15 14 1 1 *\<close> matches
  2023-01-01T14:15:30Z (Unix second 1672582530, see \<open>instant_2023_01_01\<close>) and
  does not match the second after it.
\<close>

theorem isTimeMatching_six_fields:
  "(\<forall>e t. isTimeMatching e t \<longleftrightarrow>
       Time_Second t \<in> set (Seconds e) \<and> Time_Minute t \<in> set (Minutes e) \<and>
       Time_Hour t \<in> set (Hours e) \<and> Time_Day t \<in> set (DayOfMonth e) \<and>
       Time_Month t \<in> set (Month e) \<and> Time_Weekday t \<in> set (DayOfWeek e)) \<and>
   (\<exists>e. ParseCronExpression ''30 15 14 1 1 *'' = Inr e \<and>
       isTimeMatching e (UnixUTC 1672582530) \<and> \<not> isTimeMatching e (UnixUTC 1672582531))"
proof (intro conjI allI)
  fix e t
  show "isTimeMatching e t \<longleftrightarrow>
       Time_Second t \<in> set (Seconds e) \<and> Time_Minute t \<in> set (Minutes e) \<and>
       Time_Hour t \<in> set (Hours e) \<and> Time_Day t \<in> set (DayOfMonth e) \<and>
       Time_Month t \<in> set (Month e) \<and> Time_Weekday t \<in> set (DayOfWeek e)"
    by (rule isTimeMatching_iff)
next
  let ?e = "\<lparr>Seconds = [30], Minutes = [15], Hours = [14], DayOfMonth = [1], Month = [1],
          DayOfWeek = [0, 1, 2, 3, 4, 5, 6]\<rparr>"
  have "ParseCronExpression ''30 15 14 1 1 *'' = Inr ?e" by code_simp
  moreover have "isTimeMatching ?e (UnixUTC 1672582530)" by code_simp
  moreover have "\<not> isTimeMatching ?e (UnixUTC 1672582531)" by code_simp
  ultimately show "\<exists>e. ParseCronExpression ''30 15 14 1 1 *'' = Inr e \<and>
       isTimeMatching e (UnixUTC 1672582530) \<and> \<not> isTimeMatching e (UnixUTC 1672582531)"
    by blast
qed

text \<open>
  Claim C2. \<open>nextRunTime\<close> starts at candidate 0, the whole second that follows
  \<open>fromTime\<close> (it has no nanoseconds, is later than \<open>fromTime\<close> and at most one
  second later), and each further candidate is one second after the one before. It
  returns the first of the one million candidates that matches; when none of them
  matches it returns the zero instant. The function is total: the loop is bounded.
\<close>

theorem nextRunTime_first_match:
  "Time_Nanosecond (candidate fromTime 0) = 0 \<and>
   nanos fromTime < nanos (candidate fromTime 0) \<and>
   nanos (candidate fromTime 0) \<le> nanos fromTime + Second \<and>
   (\<forall>k. candidate fromTime (Suc k) = Time_Add (candidate fromTime k) Second) \<and>
   (\<forall>k<maxIterations.
      isTimeMatching expr (candidate fromTime k) \<and>
      (\<forall>j<k. \<not> isTimeMatching expr (candidate fromTime j)) \<longrightarrow>
      nextRunTime expr fromTime = candidate fromTime k) \<and>
   ((\<forall>k<maxIterations. \<not> isTimeMatching expr (candidate fromTime k)) \<longrightarrow>
      nextRunTime expr fromTime = zeroTime) \<and>
   maxIterations = 1000000"
proof (intro conjI allI impI)
  show "Time_Nanosecond (candidate fromTime 0) = 0"
    "nanos fromTime < nanos (candidate fromTime 0)"
    "nanos (candidate fromTime 0) \<le> nanos fromTime + Second"
    using candidate_start [of fromTime] by simp_all
  show "candidate fromTime (Suc k) = Time_Add (candidate fromTime k) Second" for k
    by (rule candidate_Suc)
  show "nextRunTime expr fromTime = candidate fromTime k"
    if "k < maxIterations"
      and "isTimeMatching expr (candidate fromTime k) \<and>
        (\<forall>j<k. \<not> isTimeMatching expr (candidate fromTime j))" for k
    unfolding nextRunTime_def candidate_def
    using that by (intro nextRunLoop_first) (auto simp add: candidate_def)
  show "nextRunTime expr fromTime = zeroTime"
    if "\<forall>k<maxIterations. \<not> isTimeMatching expr (candidate fromTime k)"
    unfolding nextRunTime_def
    using that by (intro nextRunLoop_none) (auto simp add: candidate_def)
  show "maxIterations = 1000000" by (rule maxIterations_def)
qed

text \<open>
  From a quarter of a second past 14:15:30 the scan tests 14:15:31, 14:15:32 and
  returns 14:15:33 for an expression that wants second 33; an expression with no
  second at all gets the zero instant.
\<close>

theorem nextRunTime_first_match_witness:
  "nextRunTime
     \<lparr>Seconds = [33], Minutes = [15], Hours = [14], DayOfMonth = [1], Month = [1],
      DayOfWeek = [0]\<rparr>
     \<lparr>nanos = 1672582530250000000, zone = (\<lambda>_. 0)\<rparr> = UnixUTC 1672582533 \<and>
   nextRunTime
     \<lparr>Seconds = [], Minutes = [15], Hours = [14], DayOfMonth = [1], Month = [1],
      DayOfWeek = [0]\<rparr>
     \<lparr>nanos = 1672582530250000000, zone = (\<lambda>_. 0)\<rparr> = zeroTime"
proof -
  let ?e = "\<lparr>Seconds = [33], Minutes = [15], Hours = [14], DayOfMonth = [1], Month = [1],
      DayOfWeek = [0]\<rparr>"
  let ?n = "\<lparr>Seconds = [], Minutes = [15], Hours = [14], DayOfMonth = [1], Month = [1],
      DayOfWeek = [0]\<rparr>"
  let ?t = "\<lparr>nanos = 1672582530250000000, zone = (\<lambda>_. 0)\<rparr>"
  have c: "candidate ?t 0 = UnixUTC 1672582531" "candidate ?t 1 = UnixUTC 1672582532"
    "candidate ?t 2 = UnixUTC 1672582533"
    by (simp_all add: candidate_def UnixUTC_def Time_Add_def Time_Nanosecond_def Second_def)
  have m: "\<not> isTimeMatching ?e (UnixUTC 1672582531)" "\<not> isTimeMatching ?e (UnixUTC 1672582532)"
    "isTimeMatching ?e (UnixUTC 1672582533)"
    by code_simp+
  have before: "\<forall>j<2. \<not> isTimeMatching ?e (candidate ?t j)"
  proof (intro allI impI)
    fix j :: nat
    assume "j < 2"
    then have "j = 0 \<or> j = 1" by auto
    with c m show "\<not> isTimeMatching ?e (candidate ?t j)" by auto
  qed
  have two: "(2::nat) < maxIterations" by (simp add: maxIterations_def)
  note first = nextRunTime_first_match [of ?t ?e, THEN conjunct2, THEN conjunct2,
      THEN conjunct2, THEN conjunct2, THEN conjunct1, rule_format, of 2]
  have 1: "nextRunTime ?e ?t = candidate ?t 2"
  proof (rule first)
    show "2 < maxIterations" by (rule two)
    show "isTimeMatching ?e (candidate ?t 2) \<and> (\<forall>j<2. \<not> isTimeMatching ?e (candidate ?t j))"
      using before c m by simp
  qed
  note none = nextRunTime_first_match [of ?t ?n, THEN conjunct2, THEN conjunct2,
      THEN conjunct2, THEN conjunct2, THEN conjunct2, THEN conjunct1, THEN mp]
  have never: "\<forall>k<maxIterations. \<not> isTimeMatching ?n (candidate ?t k)"
    by (simp add: isTimeMatching_def)
  have 2: "nextRunTime ?n ?t = zeroTime"
    using never by (rule none)
  from 1 2 c show ?thesis by simp
qed

text \<open>
  Claim C3. A range \<open>a-b\<close> whose two parts resolve to \<open>s\<close> and \<open>e\<close> with
  \<open>s > e\<close> yields the values from \<open>s\<close> up to the field's maximum followed by
  those from the field's minimum up to \<open>e\<close>, for all bounds and name tables. The
  weekday range \<open>Fri-Mon\<close> yields 5, 6, 0, 1, also as a whole field and as the
  last field of an expression.
\<close>

theorem parseRange_wraparound:
  "(\<forall>part lo hi nameToNumber a b s e.
       Split part CHR ''-'' = [a, b] \<and> parseValue a lo hi nameToNumber = Inr s \<and>
       parseValue b lo hi nameToNumber = Inr e \<and> e < s \<longrightarrow>
       parseRange part lo hi nameToNumber = Inr ([s..hi] @ [lo..e]) \<and>
       set ([s..hi] @ [lo..e]) = {s..hi} \<union> {lo..e}) \<and>
   parseRange ''Fri-Mon'' 0 6 dayNameToNumber = Inr [5, 6, 0, 1] \<and>
   parseField ''Fri-Mon'' 0 6 dayNameToNumber = Inr [5, 6, 0, 1] \<and>
   (\<exists>e. ParseCronExpression ''0 0 12 * * Fri-Mon'' = Inr e \<and> DayOfWeek e = [5, 6, 0, 1])"
proof (intro conjI allI impI)
  show "parseRange ''Fri-Mon'' 0 6 dayNameToNumber = Inr [5, 6, 0, 1]" by code_simp
  show "parseField ''Fri-Mon'' 0 6 dayNameToNumber = Inr [5, 6, 0, 1]" by code_simp
  have "ParseCronExpression ''0 0 12 * * Fri-Mon'' =
      Inr \<lparr>Seconds = [0], Minutes = [0], Hours = [12], DayOfMonth = [1..31], Month = [1..12],
        DayOfWeek = [5, 6, 0, 1]\<rparr>"
    by code_simp
  then show "\<exists>e. ParseCronExpression ''0 0 12 * * Fri-Mon'' = Inr e \<and> DayOfWeek e = [5, 6, 0, 1]"
    by simp
qed (auto simp add: parseRange_def)

text \<open>The month range \<open>Nov-Feb\<close> wraps from November to February.\<close>

theorem parseRange_wraparound_witness:
  "Split ''Nov-Feb'' CHR ''-'' = [''Nov'', ''Feb''] \<and>
   parseValue ''Nov'' 1 12 monthNameToNumber = Inr 11 \<and>
   parseValue ''Feb'' 1 12 monthNameToNumber = Inr 2 \<and>
   parseRange ''Nov-Feb'' 1 12 monthNameToNumber = Inr [11, 12, 1, 2]"
proof -
  have s: "Split ''Nov-Feb'' CHR ''-'' = [''Nov'', ''Feb'']" by simp
  have a: "parseValue ''Nov'' 1 12 monthNameToNumber = Inr 11" by code_simp
  have b: "parseValue ''Feb'' 1 12 monthNameToNumber = Inr 2" by code_simp
  have lt: "(2::int) < 11" by simp
  have "Split ''Nov-Feb'' CHR ''-'' = [''Nov'', ''Feb''] \<and>
      parseValue ''Nov'' 1 12 monthNameToNumber = Inr 11 \<and>
      parseValue ''Feb'' 1 12 monthNameToNumber = Inr 2 \<and> (2::int) < 11 \<longrightarrow>
      parseRange ''Nov-Feb'' 1 12 monthNameToNumber = Inr ([11..12] @ [1..2]) \<and>
      set ([11..12] @ [1..2]) = {11..12} \<union> {1..2::int}"
    using parseRange_wraparound by blast
  with s a b lt have "parseRange ''Nov-Feb'' 1 12 monthNameToNumber = Inr ([11..12] @ [1..2])"
    by blast
  moreover have "[11..12] @ [1..2] = [11, 12, 1, 2::int]" by code_simp
  ultimately show ?thesis using s a b by simp
qed

text \<open>
  Claim C4. \<open>ParseCronExpression\<close> returns either an error or an expression, never
  both; all values of a returned expression lie in the legal range of their field:
  seconds and minutes 0 to 59, hours 0 to 23, day of the month 1 to 31, month 1 to 12,
  day of the week 0 to 6.
\<close>

theorem ParseCronExpression_within:
  "(\<exists>err. ParseCronExpression expr = Inl err) \<or>
   (\<exists>e. ParseCronExpression expr = Inr e \<and>
      within 0 59 (Seconds e) \<and> within 0 59 (Minutes e) \<and> within 0 23 (Hours e) \<and>
      within 1 31 (DayOfMonth e) \<and> within 1 12 (Month e) \<and> within 0 6 (DayOfWeek e))"
proof (cases "ParseCronExpression expr")
  case (Inl err)
  then show ?thesis by blast
next
  case (Inr e)
  define fs where "fs = Fields expr"
  from Inr obtain
    s: "parseField (fs ! 0) 0 59 [] = Inr (Seconds e)" and
    m: "parseField (fs ! 1) 0 59 [] = Inr (Minutes e)" and
    h: "parseField (fs ! 2) 0 23 [] = Inr (Hours e)" and
    d: "parseField (fs ! 3) 1 31 [] = Inr (DayOfMonth e)" and
    mo: "parseField (fs ! 4) 1 12 monthNameToNumber = Inr (Month e)" and
    w: "parseField (fs ! 5) 0 6 dayNameToNumber = Inr (DayOfWeek e)"
    unfolding ParseCronExpression_def Let_def fs_def [symmetric]
    by (auto split: if_splits sum.splits)
  have "within 0 59 (Seconds e)" using s names_ok(1) by (rule parseField_within)
  moreover have "within 0 59 (Minutes e)" using m names_ok(1) by (rule parseField_within)
  moreover have "within 0 23 (Hours e)" using h names_ok(2) by (rule parseField_within)
  moreover have "within 1 31 (DayOfMonth e)" using d names_ok(3) by (rule parseField_within)
  moreover have "within 1 12 (Month e)" using mo names_ok(4) by (rule parseField_within)
  moreover have "within 0 6 (DayOfWeek e)" using w names_ok(5) by (rule parseField_within)
  ultimately show ?thesis using Inr by blast
qed

text \<open>
  An expression with a step, a range, a list, names in mixed case and a wraparound.
\<close>

theorem ParseCronExpression_within_witness:
  "ParseCronExpression ''0 */15 9-17 1,15 nov-FEB Mon-Fri'' =
     Inr \<lparr>Seconds = [0], Minutes = [0, 15, 30, 45], Hours = [9, 10, 11, 12, 13, 14, 15, 16, 17],
          DayOfMonth = [1, 15], Month = [11, 12, 1, 2], DayOfWeek = [1, 2, 3, 4, 5]\<rparr> \<and>
   within 0 59 [0, 15, 30, 45] \<and> within 0 23 [9, 10, 11, 12, 13, 14, 15, 16, 17] \<and>
   within 1 31 [1, 15] \<and> within 1 12 [11, 12, 1, 2] \<and> within 0 6 [1, 2, 3, 4, 5] \<and>
   ParseCronExpression ''0 0 0 32 * *'' = Inl (ValueOutOfRange 32)"
proof -
  have p: "ParseCronExpression ''0 */15 9-17 1,15 nov-FEB Mon-Fri'' =
     Inr \<lparr>Seconds = [0], Minutes = [0, 15, 30, 45], Hours = [9, 10, 11, 12, 13, 14, 15, 16, 17],
          DayOfMonth = [1, 15], Month = [11, 12, 1, 2], DayOfWeek = [1, 2, 3, 4, 5]\<rparr>"
    by code_simp
  have q: "ParseCronExpression ''0 0 0 32 * *'' = Inl (ValueOutOfRange 32)"
    by code_simp
  from ParseCronExpression_within [of "''0 */15 9-17 1,15 nov-FEB Mon-Fri''"] p q
  show ?thesis by simp
qed

text \<open>
  Claim C5, as the spec states it: a field \<open>a/step\<close> whose step is not a positive
  integer fails with a step error. The field \<open>60/0\<close> of the seconds has the step 0
  and fails with the error of its base, which is out of range: the base is parsed
  before the step is looked at.
\<close>

theorem step_error_counterexample:
  "Atoi ''0'' = Some 0 \<and> parseField ''60/0'' 0 59 [] = Inl (ValueOutOfRange 60) \<and>
   parseField ''60/0'' 0 59 [] \<noteq> Inl (InvalidStep ''0'') \<and>
   parseField ''60/0'' 0 59 [] \<noteq> Inl (InvalidStepField ''60/0'')"
  by code_simp

text \<open>
  Claim C5, amended. For a field \<open>a/step\<close> with one slash: when the base \<open>a\<close>
  fails, the field fails with the error of the base; when the base parses to a list of
  values and \<open>strconv.Atoi\<close> rejects the step, or the step is zero or negative,
  the field fails with a step error; when the step is a positive number the result
  keeps, in order, the values \<open>v\<close> of the base with \<open>(v - min) mod step = 0\<close>.
\<close>

theorem parseField_step:
  "CHR ''/'' \<notin> set a \<and> CHR ''/'' \<notin> set st \<longrightarrow>
     (\<forall>err. parseField a lo hi nameToNumber = Inl err \<longrightarrow>
        parseField (a @ CHR ''/'' # st) lo hi nameToNumber = Inl err) \<and>
     (\<forall>baseValues. parseField a lo hi nameToNumber = Inr baseValues \<longrightarrow>
        (Atoi st = None \<or> (\<exists>step. Atoi st = Some step \<and> step \<le> 0) \<longrightarrow>
           parseField (a @ CHR ''/'' # st) lo hi nameToNumber = Inl (InvalidStep st)) \<and>
        (\<forall>step. Atoi st = Some step \<and> 0 < step \<longrightarrow>
           parseField (a @ CHR ''/'' # st) lo hi nameToNumber =
             Inr (filter (\<lambda>v. (v - lo) mod step = 0) baseValues)))"
proof (intro impI)
  assume "CHR ''/'' \<notin> set a \<and> CHR ''/'' \<notin> set st"
  then have u: "parseField (a @ CHR ''/'' # st) lo hi nameToNumber =
     (case parseField a lo hi nameToNumber of
        Inl err \<Rightarrow> Inl err
      | Inr baseValues \<Rightarrow>
          (case Atoi st of
             None \<Rightarrow> Inl (InvalidStep st)
           | Some step \<Rightarrow>
               if step \<le> 0 then Inl (InvalidStep st)
               else Inr (filter (\<lambda>v. (v - lo) mod step = 0) baseValues)))"
    by (intro parseField_step_unfold) auto
  show "(\<forall>err. parseField a lo hi nameToNumber = Inl err \<longrightarrow>
        parseField (a @ CHR ''/'' # st) lo hi nameToNumber = Inl err) \<and>
     (\<forall>baseValues. parseField a lo hi nameToNumber = Inr baseValues \<longrightarrow>
        (Atoi st = None \<or> (\<exists>step. Atoi st = Some step \<and> step \<le> 0) \<longrightarrow>
           parseField (a @ CHR ''/'' # st) lo hi nameToNumber = Inl (InvalidStep st)) \<and>
        (\<forall>step. Atoi st = Some step \<and> 0 < step \<longrightarrow>
           parseField (a @ CHR ''/'' # st) lo hi nameToNumber =
             Inr (filter (\<lambda>v. (v - lo) mod step = 0) baseValues)))"
    unfolding u by auto
qed

text \<open>
  Every quarter of an hour, every third month, the kinds of bad step (zero, negative,
  not a number, beyond Go's \<open>int\<close>), and a bad base with a bad step.
\<close>

theorem parseField_step_witness:
  "parseField ''*/15'' 0 59 [] = Inr [0, 15, 30, 45] \<and>
   parseField ''1-12/3'' 1 12 monthNameToNumber = Inr [1, 4, 7, 10] \<and>
   parseField ''*/0'' 0 59 [] = Inl (InvalidStep ''0'') \<and>
   parseField ''*/-2'' 0 59 [] = Inl (InvalidStep ''-2'') \<and>
   parseField ''*/x'' 0 59 [] = Inl (InvalidStep ''x'') \<and>
   parseField ''*/9223372036854775808'' 0 59 [] = Inl (InvalidStep ''9223372036854775808'') \<and>
   parseField ''60/0'' 0 59 [] = Inl (ValueOutOfRange 60)"
proof -
  have star: "parseField ''*'' 0 59 [] = Inr [0..59]" by (simp add: parseField.simps)
  have rng: "parseField ''1-12'' 1 12 monthNameToNumber = Inr [1..12]" by code_simp
  have bad: "parseField ''60'' 0 59 [] = Inl (ValueOutOfRange 60)" by code_simp
  have at: "Atoi ''15'' = Some 15" "Atoi ''3'' = Some 3" "Atoi ''0'' = Some 0"
    "Atoi ''-2'' = Some (- 2)" "Atoi ''x'' = None" "Atoi ''9223372036854775808'' = None"
    by code_simp+
  have f1: "filter (\<lambda>v. (v - 0) mod 15 = 0) [0..59] = [0, 15, 30, 45::int]" by code_simp
  have f2: "filter (\<lambda>v. (v - 1) mod 3 = 0) [1..12] = [1, 4, 7, 10::int]" by code_simp
  have 1: "parseField ''*/15'' 0 59 [] = Inr [0, 15, 30, 45]"
    using parseField_step [of "''*''" "''15''" 0 59 "[]"] star at f1 by simp
  have 2: "parseField ''1-12/3'' 1 12 monthNameToNumber = Inr [1, 4, 7, 10]"
    using parseField_step [of "''1-12''" "''3''" 1 12 monthNameToNumber] rng at f2 by simp
  have 3: "parseField ''*/0'' 0 59 [] = Inl (InvalidStep ''0'')"
    using parseField_step [of "''*''" "''0''" 0 59 "[]"] star at by simp
  have 4: "parseField ''*/-2'' 0 59 [] = Inl (InvalidStep ''-2'')"
    using parseField_step [of "''*''" "''-2''" 0 59 "[]"] star at by simp
  have 5: "parseField ''*/x'' 0 59 [] = Inl (InvalidStep ''x'')"
    using parseField_step [of "''*''" "''x''" 0 59 "[]"] star at by simp
  have 6: "parseField ''60/0'' 0 59 [] = Inl (ValueOutOfRange 60)"
    using parseField_step [of "''60''" "''0''" 0 59 "[]"] bad by simp
  have 7: "parseField ''*/9223372036854775808'' 0 59 [] = Inl (InvalidStep ''9223372036854775808'')"
    using parseField_step [of "''*''" "''9223372036854775808''" 0 59 "[]"] star at by simp
  from 1 2 3 4 5 6 7 show ?thesis by simp
qed

text \<open>
  Claim C6. When the expression parses, \<open>AddJob\<close> returns no error and the jobs
  are the old ones followed by the one new job (the running flag is untouched); when
  it does not parse, \<open>AddJob\<close> returns the parser's error and the scheduler as it
  was.
\<close>

theorem AddJob_appends_or_unchanged:
  "(\<forall>schedule. ParseCronExpression expr = Inr schedule \<longrightarrow>
      snd (AddJob c expr task) = None \<and>
      Jobs (fst (AddJob c expr task)) = Jobs c @ [\<lparr>Schedule = schedule, Task = task\<rparr>] \<and>
      length (Jobs (fst (AddJob c expr task))) = Suc (length (Jobs c)) \<and>
      running (fst (AddJob c expr task)) = running c) \<and>
   (\<forall>err. ParseCronExpression expr = Inl err \<longrightarrow> AddJob c expr task = (c, Some err))"
  by (simp add: AddJob_def)

text \<open>
  A valid expression and the invalid one of the repository's tests.
\<close>

theorem AddJob_appends_or_unchanged_witness:
  "AddJob \<lparr>Jobs = [\<lparr>Schedule = atSecond 0, Task = ''first''\<rparr>], running = True\<rparr>
      ''30 * * * * *'' ''second'' =
     (\<lparr>Jobs = [\<lparr>Schedule = atSecond 0, Task = ''first''\<rparr>,
               \<lparr>Schedule = atSecond 30, Task = ''second''\<rparr>], running = True\<rparr>, None) \<and>
   AddJob \<lparr>Jobs = [\<lparr>Schedule = atSecond 0, Task = ''first''\<rparr>], running = True\<rparr>
      ''invalid cron'' ''second'' =
     (\<lparr>Jobs = [\<lparr>Schedule = atSecond 0, Task = ''first''\<rparr>], running = True\<rparr>,
      Some (InvalidExpression 2))"
proof -
  let ?c = "\<lparr>Jobs = [\<lparr>Schedule = atSecond 0, Task = ''first''\<rparr>], running = True\<rparr>"
  have p: "ParseCronExpression ''30 * * * * *'' = Inr (atSecond 30)"
    unfolding atSecond_def by code_simp
  have q: "ParseCronExpression ''invalid cron'' = Inl (InvalidExpression 2)" by code_simp
  have 1: "snd (AddJob ?c ''30 * * * * *'' ''second'') = None \<and>
      Jobs (fst (AddJob ?c ''30 * * * * *'' ''second'')) =
        Jobs ?c @ [\<lparr>Schedule = atSecond 30, Task = ''second''\<rparr>] \<and>
      running (fst (AddJob ?c ''30 * * * * *'' ''second'')) = running ?c"
    using AddJob_appends_or_unchanged [of "''30 * * * * *''" ?c "''second''"] p by blast
  have 2: "AddJob ?c ''invalid cron'' ''second'' = (?c, Some (InvalidExpression 2))"
    using AddJob_appends_or_unchanged [of "''invalid cron''" ?c "''second''"] q by blast
  obtain c' r where cr: "AddJob ?c ''30 * * * * *'' ''second'' = (c', r)"
    by (cases "AddJob ?c ''30 * * * * *'' ''second''")
  with 1 have "r = None" "Jobs c' = [\<lparr>Schedule = atSecond 0, Task = ''first''\<rparr>,
               \<lparr>Schedule = atSecond 30, Task = ''second''\<rparr>]" "running c' = True"
    by simp_all
  then have "c' = \<lparr>Jobs = [\<lparr>Schedule = atSecond 0, Task = ''first''\<rparr>,
               \<lparr>Schedule = atSecond 30, Task = ''second''\<rparr>], running = True\<rparr>"
    by (cases c') simp
  with cr \<open>r = None\<close> 2 show ?thesis by simp
qed

text \<open>
  Claim C7. \<open>RemoveJob\<close> with a negative index or one not below the number of jobs
  returns the index error and the scheduler as it was. With a valid index it returns
  no error, there is one job less, the jobs before the index stay where they are and
  every later job moves down by one.
\<close>

theorem RemoveJob_by_index:
  "(index < 0 \<or> int (length (Jobs c)) \<le> index \<longrightarrow> RemoveJob c index = (c, Some IndexOutOfRange)) \<and>
   (0 \<le> index \<and> index < int (length (Jobs c)) \<longrightarrow>
      snd (RemoveJob c index) = None \<and>
      running (fst (RemoveJob c index)) = running c \<and>
      Suc (length (Jobs (fst (RemoveJob c index)))) = length (Jobs c) \<and>
      (\<forall>j. j < nat index \<longrightarrow> Jobs (fst (RemoveJob c index)) ! j = Jobs c ! j) \<and>
      (\<forall>j. nat index \<le> j \<and> Suc j < length (Jobs c) \<longrightarrow>
         Jobs (fst (RemoveJob c index)) ! j = Jobs c ! Suc j))"
proof (intro conjI impI allI)
  assume "index < 0 \<or> int (length (Jobs c)) \<le> index"
  then show "RemoveJob c index = (c, Some IndexOutOfRange)"
    by (auto simp add: RemoveJob_def)
next
  assume ok: "0 \<le> index \<and> index < int (length (Jobs c))"
  then have r: "RemoveJob c index =
      (c\<lparr>Jobs := take (nat index) (Jobs c) @ drop (Suc (nat index)) (Jobs c)\<rparr>, None)"
    by (simp add: RemoveJob_def nat_add_distrib)
  from ok have i: "nat index < length (Jobs c)" by (simp add: nat_less_iff)
  show "snd (RemoveJob c index) = None" by (simp add: r)
  show "running (fst (RemoveJob c index)) = running c" by (simp add: r)
  show "Suc (length (Jobs (fst (RemoveJob c index)))) = length (Jobs c)"
    using i by (simp add: r)
  show "Jobs (fst (RemoveJob c index)) ! j = Jobs c ! j" if "j < nat index" for j
    using that i by (simp add: r nth_append)
  show "Jobs (fst (RemoveJob c index)) ! j = Jobs c ! Suc j"
    if "nat index \<le> j \<and> Suc j < length (Jobs c)" for j
    using that i by (simp add: r nth_append min_def)
qed

text \<open>
  Three jobs: index 3 and index -1 are refused; removing index 1 moves the third job
  to index 1.
\<close>

theorem RemoveJob_by_index_witness:
  "RemoveJob \<lparr>Jobs = [\<lparr>Schedule = atSecond 0, Task = ''a''\<rparr>, \<lparr>Schedule = atSecond 1, Task = ''b''\<rparr>,
                     \<lparr>Schedule = atSecond 2, Task = ''c''\<rparr>], running = False\<rparr> 3 =
     (\<lparr>Jobs = [\<lparr>Schedule = atSecond 0, Task = ''a''\<rparr>, \<lparr>Schedule = atSecond 1, Task = ''b''\<rparr>,
                     \<lparr>Schedule = atSecond 2, Task = ''c''\<rparr>], running = False\<rparr>, Some IndexOutOfRange) \<and>
   snd (RemoveJob \<lparr>Jobs = [\<lparr>Schedule = atSecond 0, Task = ''a''\<rparr>, \<lparr>Schedule = atSecond 1, Task = ''b''\<rparr>,
                     \<lparr>Schedule = atSecond 2, Task = ''c''\<rparr>], running = False\<rparr> (- 1)) = Some IndexOutOfRange \<and>
   Jobs (fst (RemoveJob \<lparr>Jobs = [\<lparr>Schedule = atSecond 0, Task = ''a''\<rparr>, \<lparr>Schedule = atSecond 1, Task = ''b''\<rparr>,
                     \<lparr>Schedule = atSecond 2, Task = ''c''\<rparr>], running = False\<rparr> 1)) ! 1 =
     \<lparr>Schedule = atSecond 2, Task = ''c''\<rparr>"
proof -
  let ?c = "\<lparr>Jobs = [\<lparr>Schedule = atSecond 0, Task = ''a''\<rparr>, \<lparr>Schedule = atSecond 1, Task = ''b''\<rparr>,
                     \<lparr>Schedule = atSecond 2, Task = ''c''\<rparr>], running = False\<rparr>"
  have 1: "RemoveJob ?c 3 = (?c, Some IndexOutOfRange)"
    using RemoveJob_by_index [of 3 ?c] by simp
  have 2: "RemoveJob ?c (- 1) = (?c, Some IndexOutOfRange)"
    using RemoveJob_by_index [of "- 1" ?c] by simp
  have "\<forall>j. nat 1 \<le> j \<and> Suc j < length (Jobs ?c) \<longrightarrow>
         Jobs (fst (RemoveJob ?c 1)) ! j = Jobs ?c ! Suc j"
    using RemoveJob_by_index [of 1 ?c] by simp
  then have "Jobs (fst (RemoveJob ?c 1)) ! 1 = Jobs ?c ! Suc 1"
    by simp
  then have 3: "Jobs (fst (RemoveJob ?c 1)) ! 1 = \<lparr>Schedule = atSecond 2, Task = ''c''\<rparr>"
    by simp
  from 1 2 3 show ?thesis by simp
qed

text \<open>
  Claim C8. When the input does not split into exactly six fields,
  \<open>ParseCronExpression\<close> fails with the field count error, which carries the number
  of fields found.
\<close>

theorem ParseCronExpression_field_count:
  "length (Fields expr) \<noteq> 6 \<Longrightarrow>
     ParseCronExpression expr = Inl (InvalidExpression (length (Fields expr)))"
  by (simp add: ParseCronExpression_def Let_def)

text \<open>
  Five fields, seven fields and the empty input.
\<close>

theorem ParseCronExpression_field_count_witness:
  "Fields ''* * * * *'' = [''*'', ''*'', ''*'', ''*'', ''*''] \<and>
   ParseCronExpression ''* * * * *'' = Inl (InvalidExpression 5) \<and>
   Fields ''0 0 12 * * Mon 2024'' = [''0'', ''0'', ''12'', ''*'', ''*'', ''Mon'', ''2024''] \<and>
   ParseCronExpression ''0 0 12 * * Mon 2024'' = Inl (InvalidExpression 7) \<and>
   ParseCronExpression [] = Inl (InvalidExpression 0)"
proof -
  have a: "Fields ''* * * * *'' = [''*'', ''*'', ''*'', ''*'', ''*'']" by code_simp
  have b: "Fields ''0 0 12 * * Mon 2024'' = [''0'', ''0'', ''12'', ''*'', ''*'', ''Mon'', ''2024'']"
    by code_simp
  have c: "Fields [] = []" by code_simp
  from ParseCronExpression_field_count [of "''* * * * *''"]
    ParseCronExpression_field_count [of "''0 0 12 * * Mon 2024''"]
    ParseCronExpression_field_count [of "[]"] a b c
  show ?thesis by simp
qed

text \<open>
  Claim C9. \<open>timeUntilNextJob\<close> is the least of the durations from \<open>now\<close> to the
  next run of each job, the jobs whose next run is the zero instant left out; it is
  one year (31536000 seconds) when there is no job or every job is left out. Each
  duration is the exact difference of the two instants: \<open>Time_Sub\<close> does not
  saturate here.
\<close>

theorem timeUntilNextJob_shortest:
  "timeUntilNextJob c now =
     (if durations (Jobs c) now = [] then Hour * 24 * 365
      else Min (set (durations (Jobs c) now))) \<and>
   durations (Jobs c) now =
     map (\<lambda>job. Time_Sub (nextRunTime (Schedule job) now) now)
       (filter (\<lambda>job. \<not> IsZero (nextRunTime (Schedule job) now)) (Jobs c)) \<and>
   list_all (\<lambda>job. IsZero (nextRunTime (Schedule job) now) \<or>
       Time_Sub (nextRunTime (Schedule job) now) now = nanos (nextRunTime (Schedule job) now) - nanos now)
     (Jobs c) \<and>
   Hour * 24 * 365 = 31536000 * Second"
proof (intro conjI)
  show "timeUntilNextJob c now =
     (if durations (Jobs c) now = [] then Hour * 24 * 365
      else Min (set (durations (Jobs c) now)))"
    by (rule timeUntilNextJob_eq)
  show "durations (Jobs c) now =
     map (\<lambda>job. Time_Sub (nextRunTime (Schedule job) now) now)
       (filter (\<lambda>job. \<not> IsZero (nextRunTime (Schedule job) now)) (Jobs c))"
    by (rule durations_def)
  show "Hour * 24 * 365 = 31536000 * Second" by (simp add: Hour_def)
  show "list_all (\<lambda>job. IsZero (nextRunTime (Schedule job) now) \<or>
       Time_Sub (nextRunTime (Schedule job) now) now = nanos (nextRunTime (Schedule job) now) - nanos now)
     (Jobs c)"
    unfolding list_all_iff
  proof
    fix job
    assume "job \<in> set (Jobs c)"
    show "IsZero (nextRunTime (Schedule job) now) \<or>
       Time_Sub (nextRunTime (Schedule job) now) now = nanos (nextRunTime (Schedule job) now) - nanos now"
    proof (cases "IsZero (nextRunTime (Schedule job) now)")
      case True
      then show ?thesis by simp
    next
      case False
      from nextRunTime_duration [OF False]
      have "Time_Sub (nextRunTime (Schedule job) now) now = nanos (nextRunTime (Schedule job) now) - nanos now"
        by (auto simp add: Time_Sub_def Let_def maxDuration_def minDuration_def Second_def
            split: if_splits)
      then show ?thesis by simp
    qed
  qed
qed

text \<open>
  Three jobs, the second of which never runs: the wait is the three quarters of a
  second to the third job's run. With the second job alone, and with no job, it is
  one year.
\<close>

theorem timeUntilNextJob_shortest_witness:
  "timeUntilNextJob
     \<lparr>Jobs = [\<lparr>Schedule = atSecond 33, Task = ''a''\<rparr>,
              \<lparr>Schedule = atSecond 33 \<lparr>Seconds := []\<rparr>, Task = ''b''\<rparr>,
              \<lparr>Schedule = atSecond 31, Task = ''c''\<rparr>], running = True\<rparr>
     \<lparr>nanos = 1672582530250000000, zone = (\<lambda>_. 0)\<rparr> = 750000000 \<and>
   timeUntilNextJob
     \<lparr>Jobs = [\<lparr>Schedule = atSecond 33 \<lparr>Seconds := []\<rparr>, Task = ''b''\<rparr>], running = True\<rparr>
     \<lparr>nanos = 1672582530250000000, zone = (\<lambda>_. 0)\<rparr> = 31536000000000000 \<and>
   timeUntilNextJob \<lparr>Jobs = ([] :: string Job list), running = True\<rparr>
     \<lparr>nanos = 1672582530250000000, zone = (\<lambda>_. 0)\<rparr> = 31536000000000000"
proof -
  let ?t = "\<lparr>nanos = 1672582530250000000, zone = (\<lambda>_. 0)\<rparr>"
  let ?never = "atSecond 33 \<lparr>Seconds := []\<rparr>"
  note n = nextRunTime_examples
  have z: "IsZero zeroTime" "\<not> IsZero (UnixUTC 1672582533)" "\<not> IsZero (UnixUTC 1672582531)"
    by (simp_all add: IsZero_def zeroTime_def UnixUTC_def)
  have s: "Time_Sub (UnixUTC 1672582533) ?t = 2750000000"
    "Time_Sub (UnixUTC 1672582531) ?t = 750000000"
    by (simp_all add: Time_Sub_def UnixUTC_def maxDuration_def minDuration_def)
  have d3: "durations [\<lparr>Schedule = atSecond 33, Task = ''a''\<rparr>,
              \<lparr>Schedule = ?never, Task = ''b''\<rparr>,
              \<lparr>Schedule = atSecond 31, Task = ''c''\<rparr>] ?t = [2750000000, 750000000]"
    by (simp add: durations_def n z s)
  have d1: "durations [\<lparr>Schedule = ?never, Task = ''b''\<rparr>] ?t = []"
    by (simp add: durations_def n z)
  have d0: "durations ([] :: string Job list) ?t = []"
    by (simp add: durations_def)
  have y: "Hour * 24 * 365 = 31536000000000000" by (simp add: Hour_def Second_def)
  have 1: "timeUntilNextJob
     \<lparr>Jobs = [\<lparr>Schedule = atSecond 33, Task = ''a''\<rparr>,
              \<lparr>Schedule = ?never, Task = ''b''\<rparr>,
              \<lparr>Schedule = atSecond 31, Task = ''c''\<rparr>], running = True\<rparr> ?t = 750000000"
    using timeUntilNextJob_shortest [of "\<lparr>Jobs = [\<lparr>Schedule = atSecond 33, Task = ''a''\<rparr>,
              \<lparr>Schedule = ?never, Task = ''b''\<rparr>,
              \<lparr>Schedule = atSecond 31, Task = ''c''\<rparr>], running = True\<rparr>" ?t]
    by (simp add: d3)
  have 2: "timeUntilNextJob \<lparr>Jobs = [\<lparr>Schedule = ?never, Task = ''b''\<rparr>], running = True\<rparr> ?t =
      31536000000000000"
    using timeUntilNextJob_shortest
      [of "\<lparr>Jobs = [\<lparr>Schedule = ?never, Task = ''b''\<rparr>], running = True\<rparr>" ?t]
    by (simp add: d1 y)
  have 3: "timeUntilNextJob \<lparr>Jobs = ([] :: string Job list), running = True\<rparr> ?t = 31536000000000000"
    using timeUntilNextJob_shortest [of "\<lparr>Jobs = ([] :: string Job list), running = True\<rparr>" ?t]
    by (simp add: d0 y)
  from 1 2 3 show ?thesis by simp
qed

text \<open>
  Claim C10. A part that contains a dash goes to \<open>parseRange\<close>, in the loop over
  the parts and also as a whole field without slash or comma. So a dash followed by
  text without a dash has an empty range start and fails with the error of an invalid
  range start (for every name table without the empty name), and a part with two or
  more dashes fails as an invalid range. None of the three name tables of the parser
  has the empty name. \<open>-5\<close> is such a part, in a field and in an expression.
\<close>

theorem dash_token_is_range:
  "(CHR ''-'' \<in> set part \<longrightarrow>
      parseParts (part # parts) lo hi nameToNumber values =
        (case parseRange part lo hi nameToNumber of
           Inl err \<Rightarrow> Inl err
         | Inr rangeValues \<Rightarrow> parseParts parts lo hi nameToNumber (values @ rangeValues))) \<and>
   (CHR ''-'' \<in> set part \<and> CHR ''/'' \<notin> set part \<and> CHR '','' \<notin> set part \<longrightarrow>
      parseField part lo hi nameToNumber = parseRange part lo hi nameToNumber) \<and>
   (CHR ''-'' \<notin> set ds \<and> map_of nameToNumber [] = None \<longrightarrow>
      parseRange (CHR ''-'' # ds) lo hi nameToNumber = Inl (InvalidRangeStart [])) \<and>
   (2 \<le> length (filter (\<lambda>c. c = CHR ''-'') part) \<longrightarrow>
      parseRange part lo hi nameToNumber = Inl (InvalidRange part)) \<and>
   map_of ([] :: names) [] = None \<and> map_of monthNameToNumber [] = None \<and>
   map_of dayNameToNumber [] = None \<and>
   parseField ''-5'' 0 59 [] = Inl (InvalidRangeStart []) \<and>
   ParseCronExpression ''-5 * * * * *'' = Inl (InvalidRangeStart []) \<and>
   ParseCronExpression ''* * * * * -5'' = Inl (InvalidRangeStart [])"
proof (intro conjI impI)
  show "parseParts (part # parts) lo hi nameToNumber values =
        (case parseRange part lo hi nameToNumber of
           Inl err \<Rightarrow> Inl err
         | Inr rangeValues \<Rightarrow> parseParts parts lo hi nameToNumber (values @ rangeValues))"
    if "CHR ''-'' \<in> set part"
    using that by (simp add: Contains_def)
  show "parseField part lo hi nameToNumber = parseRange part lo hi nameToNumber"
    if "CHR ''-'' \<in> set part \<and> CHR ''/'' \<notin> set part \<and> CHR '','' \<notin> set part"
    using that by (intro parseField_single_part) auto
  show "parseRange (CHR ''-'' # ds) lo hi nameToNumber = Inl (InvalidRangeStart [])"
    if "CHR ''-'' \<notin> set ds \<and> map_of nameToNumber [] = None"
    using that by (intro parseRange_leading_dash) auto
  show "parseRange part lo hi nameToNumber = Inl (InvalidRange part)"
    if "2 \<le> length (filter (\<lambda>c. c = CHR ''-'') part)"
    using that by (rule parseRange_many_dashes)
  show "map_of ([] :: names) [] = None" by simp
  show "map_of monthNameToNumber [] = None" by (simp add: monthNameToNumber_def)
  show "map_of dayNameToNumber [] = None" by (simp add: dayNameToNumber_def)
  show "parseField ''-5'' 0 59 [] = Inl (InvalidRangeStart [])" by code_simp
  show "ParseCronExpression ''-5 * * * * *'' = Inl (InvalidRangeStart [])" by code_simp
  show "ParseCronExpression ''* * * * * -5'' = Inl (InvalidRangeStart [])" by code_simp
qed

text \<open>
  \<open>-5\<close> after a valid part of a list and with the weekday names; two parts with
  two dashes.
\<close>

theorem dash_token_is_range_witness:
  "parseParts [''3'', ''-5'', ''7''] 0 59 [] [] = Inl (InvalidRangeStart []) \<and>
   parseField ''-5'' 0 6 dayNameToNumber = Inl (InvalidRangeStart []) \<and>
   parseField ''1-2-3'' 1 12 monthNameToNumber = Inl (InvalidRange ''1-2-3'') \<and>
   parseField ''--5'' 0 59 [] = Inl (InvalidRange ''--5'')"
proof -
  have d: "map_of dayNameToNumber [] = None" by (simp add: dayNameToNumber_def)
  have three: "parseValue ''3'' 0 59 [] = Inr 3" by code_simp
  have a: "parseRange ''-5'' lo hi [] = Inl (InvalidRangeStart [])" for lo hi
    using dash_token_is_range [of "''-5''" "[]" lo hi "[]" "[]" "''5''"] by simp
  have "parseParts [''-5'', ''7''] 0 59 [] [3] = Inl (InvalidRangeStart [])"
    using dash_token_is_range [of "''-5''" "[''7'']" 0 59 "[]" "[3]" "''5''"] a by simp
  then have 1: "parseParts [''3'', ''-5'', ''7''] 0 59 [] [] = Inl (InvalidRangeStart [])"
    using three by (simp add: Contains_def)
  have 2: "parseField ''-5'' 0 6 dayNameToNumber = Inl (InvalidRangeStart [])"
    using dash_token_is_range [of "''-5''" "[]" 0 6 dayNameToNumber "[]" "''5''"] d by simp
  have 3: "parseField ''1-2-3'' 1 12 monthNameToNumber = Inl (InvalidRange ''1-2-3'')"
    using dash_token_is_range [of "''1-2-3''" "[]" 1 12 monthNameToNumber "[]" "[]"] by simp
  have 4: "parseField ''--5'' 0 59 [] = Inl (InvalidRange ''--5'')"
    using dash_token_is_range [of "''--5''" "[]" 0 59 "[]" "[]" "[]"] by simp
  from 1 2 3 4 show ?thesis by simp
qed

end
